theory Spec2Isabelle
  imports Main
begin


section \<open>Python values used by Health\_system.py\<close>

text \<open>
  A Python \<open>str\<close> is a sequence of code points: here a list of integers. The
  character classes below are those of CPython's Unicode database on the code points
  0 to 255 (ASCII and Latin-1) and on the CJK ideographs U+4E00 to U+9FA5, which are
  letters without case; the model covers strings over these code points. A \<open>str\<close>
  literal of the program is written as a \<open>string\<close> and read by \<open>ustr\<close>; the error
  messages, which the program builds from literals only, stay of type \<open>string\<close>.
\<close>

datatype exn = ValueError | OverflowError

type_synonym ustring = "int list"

definition ustr :: "string \<Rightarrow> ustring" where
  "ustr s = map of_char s"

definition is_ideograph :: "int \<Rightarrow> bool" where
  "is_ideograph n = (19968 \<le> n \<and> n \<le> 40869)"

definition isspace_char :: "int \<Rightarrow> bool" where
  "isspace_char n = ((9 \<le> n \<and> n \<le> 13) \<or> (28 \<le> n \<and> n \<le> 32) \<or> n = 133 \<or> n = 160)"

definition isdecimal_char :: "int \<Rightarrow> bool" where
  "isdecimal_char n = (48 \<le> n \<and> n \<le> 57)"

text \<open>\<open>str.isdigit\<close> also accepts the superscript digits U+00B2, U+00B3 and U+00B9.\<close>

definition isdigit_char :: "int \<Rightarrow> bool" where
  "isdigit_char n = ((48 \<le> n \<and> n \<le> 57) \<or> n = 178 \<or> n = 179 \<or> n = 185)"

definition isupper_char :: "int \<Rightarrow> bool" where
  "isupper_char n =
     ((65 \<le> n \<and> n \<le> 90) \<or> (192 \<le> n \<and> n \<le> 214) \<or> (216 \<le> n \<and> n \<le> 222))"

definition islower_char :: "int \<Rightarrow> bool" where
  "islower_char n =
     ((97 \<le> n \<and> n \<le> 122) \<or> n = 170 \<or> n = 181 \<or> n = 186
      \<or> (223 \<le> n \<and> n \<le> 246) \<or> (248 \<le> n \<and> n \<le> 255))"

text \<open>None of these code points is a titlecase letter (category Lt).\<close>

definition istitle_char :: "int \<Rightarrow> bool" where
  "istitle_char n = False"

definition isalpha_char :: "int \<Rightarrow> bool" where
  "isalpha_char n =
     ((65 \<le> n \<and> n \<le> 90) \<or> (97 \<le> n \<and> n \<le> 122) \<or> n = 170 \<or> n = 181 \<or> n = 186
      \<or> (192 \<le> n \<and> n \<le> 214) \<or> (216 \<le> n \<and> n \<le> 246) \<or> (248 \<le> n \<and> n \<le> 255)
      \<or> is_ideograph n)"

text \<open>\<open>s.isdigit()\<close>, \<open>s.isalpha()\<close>: every character is in the class and \<open>s\<close> is not empty.\<close>

definition isdigit :: "ustring \<Rightarrow> bool" where
  "isdigit s = (s \<noteq> [] \<and> list_all isdigit_char s)"

definition isalpha :: "ustring \<Rightarrow> bool" where
  "isalpha s = (s \<noteq> [] \<and> list_all isalpha_char s)"

text \<open>\<open>s.isupper()\<close>: no lowercase or titlecase character, and at least one uppercase one.
  A character without case, such as an ideograph, does not count either way.\<close>

definition isupper :: "ustring \<Rightarrow> bool" where
  "isupper s = (\<not> list_ex (\<lambda>c. islower_char c \<or> istitle_char c) s \<and> list_ex isupper_char s)"

text \<open>\<open>s.strip()\<close> removes the whitespace at both ends; \<open>s.replace(" ", "")\<close> removes
  every U+0020.\<close>

definition lstrip :: "ustring \<Rightarrow> ustring" where
  "lstrip s = dropWhile isspace_char s"

definition rstrip :: "ustring \<Rightarrow> ustring" where
  "rstrip s = rev (dropWhile isspace_char (rev s))"

definition strip :: "ustring \<Rightarrow> ustring" where
  "strip s = rstrip (lstrip s)"

definition remove_spaces :: "ustring \<Rightarrow> ustring" where
  "remove_spaces s = filter (\<lambda>c. c \<noteq> of_char (CHR '' '')) s"

text \<open>\<open>int(d)\<close> on a one-character string: only the decimal digits convert, anything else
  raises \<open>ValueError\<close>.\<close>

definition int_of_digit :: "int \<Rightarrow> exn + int" where
  "int_of_digit c = (if isdecimal_char c then Inr (c - 48) else Inl ValueError)"

text \<open>The list comprehension \<open>[int(d) for d in number]\<close>: the first failing conversion
  raises.\<close>

fun int_digits :: "ustring \<Rightarrow> exn + int list" where
  "int_digits [] = Inr []"
| "int_digits (c # cs) =
     (case int_of_digit c of
        Inl e \<Rightarrow> Inl e
      | Inr d \<Rightarrow> (case int_digits cs of Inl e \<Rightarrow> Inl e | Inr ds \<Rightarrow> Inr (d # ds)))"

section \<open>luhn\_check\<close>

text \<open>The \<open>for i, d in enumerate(digits)\<close> loop, with the running \<open>total\<close> (here \<open>tot\<close>).\<close>

fun luhn_loop :: "nat \<Rightarrow> int list \<Rightarrow> int \<Rightarrow> int" where
  "luhn_loop i [] tot = tot"
| "luhn_loop i (d # ds) tot =
     (let d' = (if i mod 2 = 0
                then (let d2 = d * 2 in if d2 > 9 then d2 - 9 else d2)
                else d)
      in luhn_loop (i + 1) ds (tot + d'))"

definition luhn_check :: "ustring \<Rightarrow> exn + bool" where
  "luhn_check number =
     (if \<not> isdigit number then Inr False
      else case int_digits number of
             Inl e \<Rightarrow> Inl e
           | Inr digits \<Rightarrow>
               (let check_digit = last digits;
                    digits' = rev (butlast digits);
                    tot = luhn_loop 0 digits' 0
                in Inr ((tot + check_digit) mod 10 = 0)))"

section \<open>Calendar dates\<close>

text \<open>
  \<open>datetime.date\<close>: a proleptic Gregorian date with the attributes \<open>year\<close>, \<open>month\<close> and
  \<open>day\<close>. The constructor accepts exactly the dates satisfying \<open>valid_date\<close> and raises
  \<open>ValueError\<close> otherwise (\<open>None\<close> in \<open>mk_date\<close>).
\<close>

record date =
  year :: int
  month :: int
  day :: int

definition is_leap :: "int \<Rightarrow> bool" where
  "is_leap y = (y mod 4 = 0 \<and> (y mod 100 \<noteq> 0 \<or> y mod 400 = 0))"

definition days_in_month :: "int \<Rightarrow> int \<Rightarrow> int" where
  "days_in_month y m =
     (if m = 2 then (if is_leap y then 29 else 28)
      else if m = 4 \<or> m = 6 \<or> m = 9 \<or> m = 11 then 30 else 31)"

definition valid_date :: "date \<Rightarrow> bool" where
  "valid_date d = (1 \<le> year d \<and> year d \<le> 9999 \<and> 1 \<le> month d \<and> month d \<le> 12
                   \<and> 1 \<le> day d \<and> day d \<le> days_in_month (year d) (month d))"

definition mk_date :: "int \<Rightarrow> int \<Rightarrow> int \<Rightarrow> date option" where
  "mk_date y m d =
     (let r = \<lparr>year = y, month = m, day = d\<rparr> in if valid_date r then Some r else None)"

text \<open>Dates compare as the tuples \<open>(year, month, day)\<close>.\<close>

definition date_less :: "date \<Rightarrow> date \<Rightarrow> bool" where
  "date_less a b = (year a < year b \<or> (year a = year b \<and>
                     (month a < month b \<or> (month a = month b \<and> day a < day b))))"

text \<open>\<open>date.toordinal()\<close>: day 1 is 0001-01-01.\<close>

definition days_before_year :: "int \<Rightarrow> int" where
  "days_before_year y = (let p = y - 1 in p * 365 + p div 4 - p div 100 + p div 400)"

definition days_before_month :: "int \<Rightarrow> int \<Rightarrow> int" where
  "days_before_month y m =
     [0, 31, 59, 90, 120, 151, 181, 212, 243, 273, 304, 334] ! nat (m - 1)
       + (if m > 2 \<and> is_leap y then 1 else 0)"

definition toordinal :: "date \<Rightarrow> int" where
  "toordinal d = days_before_year (year d) + days_before_month (year d) (month d) + day d"

text \<open>
  \<open>d - timedelta(days=n)\<close> is the date \<open>n\<close> days before \<open>d\<close>; it raises \<open>OverflowError\<close>
  when that day lies before 0001-01-01. The day before a date is computed directly from
  the calendar.
\<close>

definition prev_day :: "date \<Rightarrow> date" where
  "prev_day d =
     (if day d > 1 then d\<lparr>day := day d - 1\<rparr>
      else if month d > 1
           then \<lparr>year = year d, month = month d - 1, day = days_in_month (year d) (month d - 1)\<rparr>
           else \<lparr>year = year d - 1, month = 12, day = 31\<rparr>)"

fun days_back :: "nat \<Rightarrow> date \<Rightarrow> date" where
  "days_back 0 d = d"
| "days_back (Suc n) d = days_back n (prev_day d)"

definition date_sub_days :: "date \<Rightarrow> nat \<Rightarrow> exn + date" where
  "date_sub_days d n = (if toordinal d - int n < 1 then Inl OverflowError else Inr (days_back n d))"

text \<open>\<open>date.isoformat()\<close> is \<open>"%04d-%02d-%02d" % (year, month, day)\<close>: a string of
  ASCII characters.\<close>

definition digit_chr :: "nat \<Rightarrow> char" where
  "digit_chr n = char_of (48 + n)"

fun dec_digits :: "nat \<Rightarrow> string" where
  "dec_digits n = (if n < 10 then [digit_chr n] else dec_digits (n div 10) @ [digit_chr (n mod 10)])"

declare dec_digits.simps [simp del]

definition zero_pad :: "nat \<Rightarrow> int \<Rightarrow> string" where
  "zero_pad w n = (let s = dec_digits (nat n) in replicate (w - length s) (CHR ''0'') @ s)"

definition isoformat :: "date \<Rightarrow> string" where
  "isoformat d = zero_pad 4 (year d) @ ''-'' @ zero_pad 2 (month d) @ ''-'' @ zero_pad 2 (day d)"

section \<open>datetime.strptime\<close>

text \<open>
  \<open>datetime.strptime(s, fmt).date()\<close> for formats built from \<open>%Y\<close>, \<open>%m\<close>, \<open>%d\<close> and
  literal characters. CPython turns the format into a regular expression, with
  \<open>%Y\<close> as \<open>\d\d\d\d\<close>, \<open>%m\<close> as \<open>1[0-2]|0[1-9]|[1-9]\<close> and \<open>%d\<close> as
  \<open>3[0-1]|[1-2]\d|0[1-9]|[1-9]| [1-9]\<close>, takes the first match of the backtracking
  search at the start of the string, raises \<open>ValueError\<close> when there is none or when
  text remains after it, and then builds the date (which raises \<open>ValueError\<close> for a day
  that is not in the calendar). Every \<open>ValueError\<close> is \<open>None\<close> here.
\<close>

datatype directive = DY | Dm | Dd

datatype fmt_item = Lit char | Dir directive

fun compile_format :: "string \<Rightarrow> fmt_item list option" where
  "compile_format [] = Some []"
| "compile_format [c] = (if c = CHR ''%'' then None else Some [Lit c])"
| "compile_format (c # c' # cs) =
     (if c = CHR ''%'' then
        (if c' = CHR ''Y'' then map_option (\<lambda>r. Dir DY # r) (compile_format cs)
         else if c' = CHR ''m'' then map_option (\<lambda>r. Dir Dm # r) (compile_format cs)
         else if c' = CHR ''d'' then map_option (\<lambda>r. Dir Dd # r) (compile_format cs)
         else None)
      else map_option (\<lambda>r. Lit c # r) (compile_format (c' # cs)))"

definition in_range :: "int \<Rightarrow> char \<Rightarrow> char \<Rightarrow> bool" where
  "in_range c lo hi = (of_char lo \<le> c \<and> c \<le> of_char hi)"

definition dval :: "int \<Rightarrow> int" where
  "dval c = c - 48"

text \<open>The alternatives of a directive that match at the start of \<open>s\<close>, in the order the
  regular expression tries them: the value read and the rest of the string.\<close>

fun alts :: "directive \<Rightarrow> ustring \<Rightarrow> (int \<times> ustring) list" where
  "alts DY s =
     (case s of
        a # b # c # d # r \<Rightarrow>
          if isdecimal_char a \<and> isdecimal_char b \<and> isdecimal_char c \<and> isdecimal_char d
          then [(1000 * dval a + 100 * dval b + 10 * dval c + dval d, r)] else []
      | _ \<Rightarrow> [])"
| "alts Dm s =
     (case s of a # b # r \<Rightarrow>
        if a = of_char (CHR ''1'') \<and> in_range b (CHR ''0'') (CHR ''2'') then [(10 + dval b, r)] else []
      | _ \<Rightarrow> [])
     @ (case s of a # b # r \<Rightarrow>
        if a = of_char (CHR ''0'') \<and> in_range b (CHR ''1'') (CHR ''9'') then [(dval b, r)] else []
      | _ \<Rightarrow> [])
     @ (case s of a # r \<Rightarrow>
        if in_range a (CHR ''1'') (CHR ''9'') then [(dval a, r)] else []
      | _ \<Rightarrow> [])"
| "alts Dd s =
     (case s of a # b # r \<Rightarrow>
        if a = of_char (CHR ''3'') \<and> in_range b (CHR ''0'') (CHR ''1'') then [(30 + dval b, r)] else []
      | _ \<Rightarrow> [])
     @ (case s of a # b # r \<Rightarrow>
        if in_range a (CHR ''1'') (CHR ''2'') \<and> isdecimal_char b
        then [(10 * dval a + dval b, r)] else []
      | _ \<Rightarrow> [])
     @ (case s of a # b # r \<Rightarrow>
        if a = of_char (CHR ''0'') \<and> in_range b (CHR ''1'') (CHR ''9'') then [(dval b, r)] else []
      | _ \<Rightarrow> [])
     @ (case s of a # r \<Rightarrow>
        if in_range a (CHR ''1'') (CHR ''9'') then [(dval a, r)] else []
      | _ \<Rightarrow> [])
     @ (case s of a # b # r \<Rightarrow>
        if a = of_char (CHR '' '') \<and> in_range b (CHR ''1'') (CHR ''9'') then [(dval b, r)] else []
      | _ \<Rightarrow> [])"

fun set_field :: "directive \<Rightarrow> int \<Rightarrow> int \<times> int \<times> int \<Rightarrow> int \<times> int \<times> int" where
  "set_field DY v (y, m, d) = (v, m, d)"
| "set_field Dm v (y, m, d) = (y, v, d)"
| "set_field Dd v (y, m, d) = (y, m, v)"

fun match_items :: "fmt_item list \<Rightarrow> ustring \<Rightarrow> int \<times> int \<times> int \<Rightarrow> ((int \<times> int \<times> int) \<times> ustring) option"
  and try_alts :: "directive \<Rightarrow> fmt_item list \<Rightarrow> int \<times> int \<times> int \<Rightarrow> (int \<times> ustring) list
                   \<Rightarrow> ((int \<times> int \<times> int) \<times> ustring) option" where
  "match_items [] s f = Some (f, s)"
| "match_items (Lit c # its) s f =
     (case s of [] \<Rightarrow> None | c' # s' \<Rightarrow> if c' = of_char c then match_items its s' f else None)"
| "match_items (Dir k # its) s f = try_alts k its f (alts k s)"
| "try_alts k its f [] = None"
| "try_alts k its f ((v, s') # as) =
     (case match_items its s' (set_field k v f) of
        Some r \<Rightarrow> Some r
      | None \<Rightarrow> try_alts k its f as)"

definition strptime :: "ustring \<Rightarrow> string \<Rightarrow> date option" where
  "strptime date_string fmt =
     (case compile_format fmt of
        None \<Rightarrow> None
      | Some its \<Rightarrow>
          (case match_items its date_string (1900, 1, 1) of
             None \<Rightarrow> None
           | Some ((y, m, d), rest) \<Rightarrow> if rest \<noteq> [] then None else mk_date y m d))"

section \<open>parse\_date\_flex and age\_in\_years\<close>

definition patterns :: "string list" where
  "patterns = [''%Y-%m-%d'', ''%Y/%m/%d'', ''%d-%m-%Y'', ''%d/%m/%Y'', ''%Y%m%d'']"

text \<open>The \<open>for pattern in patterns\<close> loop: the first pattern that parses returns.\<close>

fun try_patterns :: "ustring \<Rightarrow> string list \<Rightarrow> date option" where
  "try_patterns date_str [] = None"
| "try_patterns date_str (pattern # ps) =
     (case strptime date_str pattern of
        Some dt \<Rightarrow> Some dt
      | None \<Rightarrow> try_patterns date_str ps)"

text \<open>The list \<open>errors\<close> is mutated in place by the source; here it is passed in and
  returned.\<close>

definition parse_date_flex :: "ustring \<Rightarrow> string \<Rightarrow> string list \<Rightarrow> date option \<times> string list" where
  "parse_date_flex date_str field_name errors =
     (if date_str = [] \<or> strip date_str = [] then (None, errors @ [field_name @ '' is empty''])
      else let date_str' = strip date_str in
        (case try_patterns date_str' patterns of
           Some dt \<Rightarrow> (Some dt, errors)
         | None \<Rightarrow>
             (None, errors @ [field_name @ '' is not a valid date in supported formats ''
                                @ ''(expected something like YYYY-MM-DD)''])))"

definition age_in_years :: "date \<Rightarrow> date \<Rightarrow> int" where
  "age_in_years dob today =
     (let years = year today - year dob in
      if month today < month dob \<or> (month today = month dob \<and> day today < day dob)
      then years - 1 else years)"

section \<open>validate\_record\<close>

record PatientRecord =
  PatientID :: ustring
  HealthCardNumber :: ustring
  VersionCode :: ustring
  DateOfBirth :: ustring
  ServiceDate :: ustring

text \<open>
  \<open>raw_record\<close> is a \<open>Dict[str, str]\<close>; \<open>raw_record.get(k)\<close> is \<open>None\<close> for a missing
  key. Python's \<open>a or b\<close> is \<open>a\<close> when \<open>a\<close> is truthy (a non-empty string) and \<open>b\<close>
  otherwise, so a key that is present with the value \<open>""\<close> falls through like a missing
  one.
\<close>

type_synonym raw_record = "string \<rightharpoonup> ustring"

definition truthy :: "ustring option \<Rightarrow> bool" where
  "truthy a = (case a of None \<Rightarrow> False | Some s \<Rightarrow> s \<noteq> [])"

definition py_or :: "ustring option \<Rightarrow> ustring option \<Rightarrow> ustring option" where
  "py_or a b = (if truthy a then a else b)"

definition or_str :: "ustring option \<Rightarrow> ustring \<Rightarrow> ustring" where
  "or_str a b = (case a of None \<Rightarrow> b | Some s \<Rightarrow> if s \<noteq> [] then s else b)"

definition get_patient_id :: "raw_record \<Rightarrow> ustring" where
  "get_patient_id raw = strip (or_str (py_or (raw ''Patient ID'') (raw ''PatientID'')) [])"

definition get_health_card :: "raw_record \<Rightarrow> ustring" where
  "get_health_card raw = strip (remove_spaces (or_str (raw ''Health Card Number'') []))"

definition get_version_code :: "raw_record \<Rightarrow> ustring" where
  "get_version_code raw = strip (or_str (raw ''Version Code'') [])"

definition get_dob_str :: "raw_record \<Rightarrow> ustring" where
  "get_dob_str raw = strip (or_str (raw ''Date of Birth'') [])"

definition get_service_str :: "raw_record \<Rightarrow> ustring" where
  "get_service_str raw = strip (or_str (raw ''Service Date'') [])"

text \<open>Rule 1, health card number. \<open>luhn_check\<close> is reached only in the last branch.\<close>

definition rule_health_card :: "ustring \<Rightarrow> string list \<Rightarrow> exn + string list" where
  "rule_health_card health_card errors =
     (if health_card = [] then Inr (errors @ [''Health card number is missing''])
      else if \<not> isdigit health_card
      then Inr (errors @ [''Health card number must contain only digits''])
      else if length health_card \<noteq> 10
      then Inr (errors @ [''Health card number must be exactly 10 digits''])
      else case luhn_check health_card of
             Inl e \<Rightarrow> Inl e
           | Inr ok \<Rightarrow>
               if \<not> ok then Inr (errors @ [''Health card number failed MOD 10 (Luhn) validation''])
               else Inr errors)"

text \<open>Rule 2, version code.\<close>

definition rule_version_code :: "ustring \<Rightarrow> string list \<Rightarrow> string list" where
  "rule_version_code version_code errors =
     (if version_code = [] then errors @ [''Version code is missing'']
      else if length version_code \<noteq> 2 then errors @ [''Version code must be exactly 2 characters'']
      else if \<not> isalpha version_code then errors @ [''Version code must contain only letters A-Z'']
      else if \<not> isupper version_code then errors @ [''Version code must be uppercase letters (A-Z)'']
      else errors)"

text \<open>Rule 3, date of birth, after \<open>parse_date_flex\<close>. A \<open>date\<close> object is always truthy.\<close>

definition rule_date_of_birth :: "date option \<Rightarrow> date \<Rightarrow> string list \<Rightarrow> string list" where
  "rule_date_of_birth dob today errors =
     (case dob of
        None \<Rightarrow> errors
      | Some dob' \<Rightarrow>
          if date_less today dob' then errors @ [''Date of birth is in the future'']
          else let age = age_in_years dob' today;
                   errors1 = (if age < 0 then errors @ [''Patient age cannot be negative'']
                              else errors)
               in if age \<ge> 150 then errors1 @ [''Patient age must be less than 150 years'']
                  else errors1)"

text \<open>Rule 4, service date, after \<open>parse_date_flex\<close>. \<open>today - timedelta(days=183)\<close> is
  computed whenever the service date parsed.\<close>

definition rule_service_date :: "date option \<Rightarrow> date option \<Rightarrow> date \<Rightarrow> string list \<Rightarrow> exn + string list" where
  "rule_service_date service_date dob today errors =
     (case service_date of
        None \<Rightarrow> Inr errors
      | Some sd \<Rightarrow>
          (let errors1 = (if date_less today sd then errors @ [''Service date is in the future'']
                          else errors);
               errors2 = (case dob of
                            None \<Rightarrow> errors1
                          | Some dob' \<Rightarrow>
                              if date_less sd dob'
                              then errors1 @ [''Service date is before date of birth'']
                              else errors1)
           in (case date_sub_days today 183 of
                 Inl e \<Rightarrow> Inl e
               | Inr six_months_ago \<Rightarrow>
                   if date_less sd six_months_ago
                   then Inr (errors2 @ [''Service date is more than 6 months in the past''])
                   else Inr errors2)))"

definition rule_patient_id :: "ustring \<Rightarrow> string list \<Rightarrow> string list" where
  "rule_patient_id patient_id errors =
     (if patient_id = [] then errors @ [''Patient ID is missing''] else errors)"

text \<open>All rules in the order of the source; the result is the list \<open>errors\<close> after the
  last rule, with the two parsed dates.\<close>

definition run_rules :: "raw_record \<Rightarrow> date \<Rightarrow> exn + (string list \<times> date option \<times> date option)" where
  "run_rules raw today =
     (case rule_health_card (get_health_card raw) [] of
        Inl e \<Rightarrow> Inl e
      | Inr errors1 \<Rightarrow>
          (let errors2 = rule_version_code (get_version_code raw) errors1;
               (dob, errors3) = parse_date_flex (get_dob_str raw) ''Date of birth'' errors2;
               errors4 = rule_date_of_birth dob today errors3;
               (service_date, errors5) = parse_date_flex (get_service_str raw) ''Service date'' errors4
           in (case rule_service_date service_date dob today errors5 of
                 Inl e \<Rightarrow> Inl e
               | Inr errors6 \<Rightarrow>
                   Inr (rule_patient_id (get_patient_id raw) errors6, dob, service_date))))"

definition validate_record :: "raw_record \<Rightarrow> date \<Rightarrow> exn + (bool \<times> string list \<times> PatientRecord option)" where
  "validate_record raw today =
     (case run_rules raw today of
        Inl e \<Rightarrow> Inl e
      | Inr (errors, dob, service_date) \<Rightarrow>
          let is_valid = (length errors = 0) in
          if \<not> is_valid then Inr (False, errors, None)
          else let dob_iso = (case dob of Some d \<Rightarrow> ustr (isoformat d) | None \<Rightarrow> []);
                   service_iso = (case service_date of Some d \<Rightarrow> ustr (isoformat d) | None \<Rightarrow> [])
               in Inr (True, [],
                       Some \<lparr>PatientID = get_patient_id raw,
                             HealthCardNumber = get_health_card raw,
                             VersionCode = get_version_code raw,
                             DateOfBirth = dob_iso,
                             ServiceDate = service_iso\<rparr>))"

section \<open>The validation loop of main\<close>


section \<open>Reference definitions written from the specification\<close>

text \<open>
  The MOD-10 reference computation as the specification words it, on the list of digit
  values: split off the trailing check digit, reverse the rest, double each reversed
  digit at an even 0-based index (minus 9 when the doubled value exceeds 9), add the
  check digit, and test divisibility by 10.
\<close>

definition luhn_transform :: "nat \<Rightarrow> int \<Rightarrow> int" where
  "luhn_transform i d = (if even i then (if 2 * d > 9 then 2 * d - 9 else 2 * d) else d)"

definition luhn_reference :: "int list \<Rightarrow> bool" where
  "luhn_reference ds =
     (let check = last ds;
          rest = rev (butlast ds);
          transformed = map (\<lambda>(i, d). luhn_transform i d) (zip [0..<length rest] rest)
      in (sum_list transformed + check) mod 10 = 0)"



section \<open>Auxiliary definitions for the statements\<close>

definition days_in_year :: "int \<Rightarrow> int" where
  "days_in_year y = (if is_leap y then 366 else 365)"

text \<open>What each rule of \<open>validate_record\<close> adds to an empty error list, and the two
  parsed dates.\<close>

definition dob_parsed :: "raw_record \<Rightarrow> date option" where
  "dob_parsed raw = fst (parse_date_flex (get_dob_str raw) ''Date of birth'' [])"

definition service_parsed :: "raw_record \<Rightarrow> date option" where
  "service_parsed raw = fst (parse_date_flex (get_service_str raw) ''Service date'' [])"

definition health_card_errors :: "raw_record \<Rightarrow> exn + string list" where
  "health_card_errors raw = rule_health_card (get_health_card raw) []"

definition version_code_errors :: "raw_record \<Rightarrow> string list" where
  "version_code_errors raw = rule_version_code (get_version_code raw) []"

definition date_of_birth_errors :: "raw_record \<Rightarrow> date \<Rightarrow> string list" where
  "date_of_birth_errors raw today =
     snd (parse_date_flex (get_dob_str raw) ''Date of birth'' [])
       @ rule_date_of_birth (dob_parsed raw) today []"

definition service_date_errors :: "raw_record \<Rightarrow> date \<Rightarrow> exn + string list" where
  "service_date_errors raw today =
     (case rule_service_date (service_parsed raw) (dob_parsed raw) today [] of
        Inl e \<Rightarrow> Inl e
      | Inr m \<Rightarrow> Inr (snd (parse_date_flex (get_service_str raw) ''Service date'' []) @ m))"

definition patient_id_errors :: "raw_record \<Rightarrow> string list" where
  "patient_id_errors raw = rule_patient_id (get_patient_id raw) []"

text \<open>The messages of each rule.\<close>

definition health_card_messages :: "string list" where
  "health_card_messages =
     [''Health card number is missing'',
      ''Health card number must contain only digits'',
      ''Health card number must be exactly 10 digits'',
      ''Health card number failed MOD 10 (Luhn) validation'']"

definition version_code_messages :: "string list" where
  "version_code_messages =
     [''Version code is missing'',
      ''Version code must be exactly 2 characters'',
      ''Version code must contain only letters A-Z'',
      ''Version code must be uppercase letters (A-Z)'']"

definition date_of_birth_messages :: "string list" where
  "date_of_birth_messages =
     [''Date of birth is empty'',
      ''Date of birth is not a valid date in supported formats (expected something like YYYY-MM-DD)'',
      ''Date of birth is in the future'',
      ''Patient age cannot be negative'',
      ''Patient age must be less than 150 years'']"

definition service_date_messages :: "string list" where
  "service_date_messages =
     [''Service date is empty'',
      ''Service date is not a valid date in supported formats (expected something like YYYY-MM-DD)'',
      ''Service date is in the future'',
      ''Service date is before date of birth'',
      ''Service date is more than 6 months in the past'']"

definition patient_id_messages :: "string list" where
  "patient_id_messages = [''Patient ID is missing'']"

text \<open>The shape \<open>YYYY-MM-DD\<close>: ten characters, decimal digits but for the two hyphens.\<close>

definition iso_shape :: "string \<Rightarrow> bool" where
  "iso_shape s = (length s = 10 \<and> s ! 4 = CHR ''-'' \<and> s ! 7 = CHR ''-''
                  \<and> list_all (\<lambda>i. isdecimal_char (of_char (s ! i))) [0, 1, 2, 3, 5, 6, 8, 9])"

section \<open>Example inputs\<close>

definition today_2024 :: date where
  "today_2024 = \<lparr>year = 2024, month = 6, day = 15\<rparr>"


definition record_scenario_b :: raw_record where
  "record_scenario_b =
     map_of [(''Patient ID'', ustr ''P002''), (''Health Card Number'', ustr ''12345''),
             (''Version Code'', ustr ''on''), (''Date of Birth'', ustr ''2999-01-01''),
             (''Service Date'', ustr ''2024-06-15'')]"

definition record_183_days :: raw_record where
  "record_183_days =
     map_of [(''Patient ID'', ustr ''P003''), (''Health Card Number'', ustr ''1234567897''),
             (''Version Code'', ustr ''ON''), (''Date of Birth'', ustr ''1990-05-15''),
             (''Service Date'', ustr ''2023-12-15'')]"

definition record_184_days :: raw_record where
  "record_184_days =
     map_of [(''Patient ID'', ustr ''P004''), (''Health Card Number'', ustr ''1234567897''),
             (''Version Code'', ustr ''ON''), (''Date of Birth'', ustr ''1990-05-15''),
             (''Service Date'', ustr ''2023-12-14'')]"

text \<open>A record that differs from \<open>record_accepted\<close> in its version code only: the
  letter A followed by the ideograph U+4E2D.\<close>

definition record_ideograph :: raw_record where
  "record_ideograph =
     map_of [(''Patient ID'', ustr ''P005''), (''Health Card Number'', ustr ''1234567897''),
             (''Version Code'', [of_char (CHR ''A''), 20013]),
             (''Date of Birth'', ustr ''1990-05-15''),
             (''Service Date'', ustr ''2024-06-15'')]"

text \<open>A record whose health card number is nine decimal digits followed by U+00B2.\<close>

definition record_superscript :: raw_record where
  "record_superscript =
     map_of [(''Patient ID'', ustr ''P006''),
             (''Health Card Number'', ustr ''123456789'' @ [178]),
             (''Version Code'', ustr ''ON''),
             (''Date of Birth'', ustr ''1990-05-15''),
             (''Service Date'', ustr ''2024-06-15'')]"

section \<open>What one record contributes to each output of the validation loop\<close>



section \<open>Properties of luhn\_check\<close>

lemma luhn_loop_sum:
  "luhn_loop i ds tot =
     tot + sum_list (map (\<lambda>(j, d). luhn_transform j d) (zip [i..<i + length ds] ds))"
proof (induction ds arbitrary: i tot)
  case Nil
  then show ?case by simp
next
  case (Cons d ds)
  have "[i..<i + length (d # ds)] = i # [Suc i..<Suc i + length ds]"
    by (simp add: upt_conv_Cons del: upt_Suc)
  then show ?case
    using Cons.IH [of "Suc i"]
    by (simp add: luhn_transform_def Let_def mult.commute even_iff_mod_2_eq_zero)
qed

lemma int_digits_decimal:
  "list_all isdecimal_char s \<Longrightarrow> int_digits s = Inr (map dval s)"
  by (induction s) (simp_all add: int_of_digit_def dval_def)

lemma int_digits_raises:
  "\<not> list_all isdecimal_char s \<Longrightarrow> int_digits s = Inl ValueError"
  by (induction s) (auto simp: int_of_digit_def split: sum.splits)

lemma isdecimal_isdigit: "isdecimal_char c \<Longrightarrow> isdigit_char c"
  by (simp add: isdecimal_char_def isdigit_char_def Let_def)

text \<open>A string that \<open>str.isdigit\<close> rejects is answered with \<open>False\<close>.\<close>

lemma luhn_check_not_isdigit: "\<not> isdigit s \<Longrightarrow> luhn_check s = Inr False"
  by (simp add: luhn_check_def)

text \<open>On a non-empty string of the decimal digits 0 to 9, \<open>luhn_check\<close> computes the
  reference.\<close>

lemma luhn_check_decimal:
  assumes "s \<noteq> []" and "list_all isdecimal_char s"
  shows "luhn_check s = Inr (luhn_reference (map dval s))"
proof -
  have "isdigit s"
    using assms by (auto simp: isdigit_def list_all_iff isdecimal_isdigit)
  then show ?thesis
    using assms(2) luhn_loop_sum [of 0 "rev (butlast (map dval s))" 0]
    by (simp add: luhn_check_def int_digits_decimal luhn_reference_def Let_def)
qed

text \<open>A string that passes \<open>str.isdigit\<close> and holds a superscript digit raises.\<close>

lemma luhn_check_raises:
  "isdigit s \<Longrightarrow> \<not> list_all isdecimal_char s \<Longrightarrow> luhn_check s = Inl ValueError"
  by (simp add: luhn_check_def int_digits_raises)

lemma luhn_check_True_decimal:
  assumes "luhn_check s = Inr True"
  shows "isdigit s \<and> list_all isdecimal_char s"
proof -
  have d: "isdigit s"
    using assms luhn_check_not_isdigit [of s] by auto
  moreover have "list_all isdecimal_char s"
    using assms d luhn_check_raises [of s] by auto
  ultimately show ?thesis by simp
qed

text \<open>
  C2. The claim: \<open>validate_record\<close> never raises, and \<open>luhn_check\<close> is total on all
  strings. The code raises \<open>ValueError\<close> on the one-character string U+00B2 (superscript
  two), which \<open>str.isdigit\<close> accepts and \<open>int\<close> rejects, and \<open>validate_record\<close> raises on
  a record whose health card number is nine decimal digits followed by that character.
\<close>

theorem validate_record_raises_on_superscript_digit:
  "luhn_check [178] = Inl ValueError \<and>
   get_health_card record_superscript = ustr ''123456789'' @ [178] \<and>
   validate_record record_superscript today_2024 = Inl ValueError"
  by code_simp

text \<open>
  C3. The claim: \<open>luhn_check\<close> returns false for any input containing a non-digit
  character, and computes the MOD-10 reference on a non-empty all-digit string. On the
  two-character string of the digit one and U+00B2, which is not a decimal digit but
  passes \<open>str.isdigit\<close>, the code returns neither false nor true: it raises.
\<close>

theorem luhn_check_superscript_digit_not_false:
  "\<not> isdecimal_char 178 \<and> isdigit (ustr ''1'' @ [178]) \<and>
   luhn_check (ustr ''1'' @ [178]) = Inl ValueError"
  by code_simp

section \<open>Field extraction\<close>

lemma strip_Nil: "strip [] = []"
  by (simp add: strip_def lstrip_def rstrip_def)

lemma strip_fixed:
  assumes "x = [] \<or> (\<not> isspace_char (hd x) \<and> \<not> isspace_char (last x))"
  shows "strip x = x"
proof (cases x)
  case Nil
  then show ?thesis by (simp add: strip_Nil)
next
  case (Cons a y)
  with assms have h: "\<not> isspace_char (hd x)" and l: "\<not> isspace_char (last x)" by auto
  have "lstrip x = x"
    using h Cons by (simp add: lstrip_def)
  moreover have "dropWhile isspace_char (rev x) = rev x"
    using l Cons by (cases "rev x") (auto simp: hd_rev [symmetric])
  ultimately show ?thesis by (simp add: strip_def rstrip_def)
qed

lemma strip_ends:
  assumes "strip s \<noteq> []"
  shows "\<not> isspace_char (hd (strip s)) \<and> \<not> isspace_char (last (strip s))"
proof -
  define t where "t = dropWhile isspace_char s"
  define u where "u = dropWhile isspace_char (rev t)"
  have su: "strip s = rev u"
    by (simp add: strip_def lstrip_def rstrip_def t_def u_def)
  with assms have un: "u \<noteq> []" by simp
  have "\<not> isspace_char (hd u)"
    using un unfolding u_def by (rule hd_dropWhile)
  then have l: "\<not> isspace_char (last (strip s))"
    using un by (simp add: su last_rev)
  have "rev t = takeWhile isspace_char (rev t) @ u"
    by (simp add: u_def)
  then have "t = rev u @ rev (takeWhile isspace_char (rev t))"
    by (metis rev_append rev_rev_ident)
  then have "hd t = hd (rev u)" and tn: "t \<noteq> []"
    using un by (metis hd_append2 rev_is_Nil_conv, metis append_is_Nil_conv rev_is_Nil_conv un)
  moreover have "\<not> isspace_char (hd t)"
    using tn unfolding t_def by (rule hd_dropWhile)
  ultimately have "\<not> isspace_char (hd (strip s))"
    by (simp add: su)
  with l show ?thesis by simp
qed

lemma strip_idem: "strip (strip s) = strip s"
  using strip_ends [of s] by (intro strip_fixed) auto







section \<open>The calendar\<close>

lemma div_pred:
  fixes y k :: int
  assumes "0 < k"
  shows "y div k = (y - 1) div k + (if y mod k = 0 then 1 else 0)"
proof (cases "y mod k = 0")
  case True
  have "y - 1 = k * (y div k - 1) + (k - 1)"
    using True mult_div_mod_eq [of k y] by (simp add: algebra_simps)
  then have "(y - 1) div k = y div k - 1"
    using assms int_div_pos_eq [of "y - 1" k "y div k - 1" "k - 1"] by simp
  with True show ?thesis by simp
next
  case False
  have "0 \<le> y mod k" "y mod k < k" using assms by simp_all
  then have r: "0 \<le> y mod k - 1" "y mod k - 1 < k" using False by linarith+
  have "y - 1 = k * (y div k) + (y mod k - 1)"
    using mult_div_mod_eq [of k y] by (simp add: algebra_simps)
  then have "(y - 1) div k = y div k"
    using r int_div_pos_eq [of "y - 1" k "y div k" "y mod k - 1"] by simp
  with False show ?thesis by simp
qed

lemma days_before_year_Suc:
  "days_before_year (y + 1) = days_before_year y + days_in_year y"
proof -
  define p4 where "p4 = (y mod 4 = 0)"
  define p100 where "p100 = (y mod 100 = 0)"
  define p400 where "p400 = (y mod 400 = 0)"
  define a where "a = (if p4 then 1 else 0::int)"
  define b where "b = (if p100 then 1 else 0::int)"
  define c where "c = (if p400 then 1 else 0::int)"
  have a: "y div 4 = (y - 1) div 4 + a" unfolding a_def p4_def by (rule div_pred) simp
  have b: "y div 100 = (y - 1) div 100 + b" unfolding b_def p100_def by (rule div_pred) simp
  have c: "y div 400 = (y - 1) div 400 + c" unfolding c_def p400_def by (rule div_pred) simp
  have d: "p400 \<Longrightarrow> p100"
    unfolding p400_def p100_def using mod_mod_cancel [of 100 400 y] by simp
  have e: "p100 \<Longrightarrow> p4"
    unfolding p4_def p100_def using mod_mod_cancel [of 4 100 y] by simp
  have l: "is_leap y = (p4 \<and> (\<not> p100 \<or> p400))"
    by (simp only: is_leap_def p4_def p100_def p400_def)
  have "days_in_year y = 365 + a - b + c"
    unfolding days_in_year_def l a_def b_def c_def using d e by (cases p4; cases p100; cases p400) simp_all
  moreover have "days_before_year (y + 1) = y * 365 + y div 4 - y div 100 + y div 400"
    by (simp add: days_before_year_def Let_def)
  moreover have "days_before_year y = (y - 1) * 365 + (y - 1) div 4 - (y - 1) div 100 + (y - 1) div 400"
    by (simp add: days_before_year_def Let_def)
  ultimately show ?thesis
    using a b c by (simp add: algebra_simps)
qed

lemma days_before_year_mono:
  assumes "y < y'"
  shows "days_before_year y + days_in_year y \<le> days_before_year y'"
proof -
  have "0 \<le> k \<Longrightarrow> days_before_year y + days_in_year y \<le> days_before_year (y + 1 + k)" for k
  proof (induction k rule: int_ge_induct)
    case base
    then show ?case by (simp add: days_before_year_Suc)
  next
    case (step i)
    have "days_before_year (y + 1 + (i + 1)) = days_before_year (y + 1 + i) + days_in_year (y + 1 + i)"
      using days_before_year_Suc [of "y + 1 + i"] by (simp add: algebra_simps)
    moreover have "0 \<le> days_in_year (y + 1 + i)"
      by (simp add: days_in_year_def)
    ultimately show ?case using step by linarith
  qed
  from this [of "y' - y - 1"] assms show ?thesis by simp
qed

lemma month_cases:
  assumes "1 \<le> m" and "m \<le> (12::int)"
  shows "m = 1 \<or> m = 2 \<or> m = 3 \<or> m = 4 \<or> m = 5 \<or> m = 6 \<or> m = 7 \<or> m = 8 \<or> m = 9 \<or> m = 10
         \<or> m = 11 \<or> m = 12"
  using assms by arith

lemma days_before_month_step:
  assumes "1 \<le> m" and "m \<le> 12"
  shows "days_before_month y m + days_in_month y m =
           (if m = 12 then days_in_year y else days_before_month y (m + 1))"
  using month_cases [OF assms]
  by (elim disjE) (simp_all add: days_before_month_def days_in_month_def days_in_year_def)

lemma days_before_month_mono:
  assumes "1 \<le> m" and "m < m'" and "m' \<le> 12"
  shows "days_before_month y m + days_in_month y m \<le> days_before_month y m'"
proof -
  have "0 \<le> k \<Longrightarrow> m + 1 + k \<le> 12 \<Longrightarrow>
          days_before_month y m + days_in_month y m \<le> days_before_month y (m + 1 + k)" for k
  proof (induction k rule: int_ge_induct)
    case base
    then show ?case using days_before_month_step [of m y] assms(1) by simp
  next
    case (step i)
    have "days_before_month y (m + 1 + i) + days_in_month y (m + 1 + i)
            = days_before_month y (m + 1 + i + 1)"
      using days_before_month_step [of "m + 1 + i" y] step assms(1) by simp
    moreover have "0 \<le> days_in_month y (m + 1 + i)"
      by (simp add: days_in_month_def)
    ultimately show ?case using step by (simp add: algebra_simps)
  qed
  from this [of "m' - m - 1"] assms show ?thesis by simp
qed

lemma days_before_month_nonneg:
  assumes "1 \<le> m" and "m \<le> 12"
  shows "0 \<le> days_before_month y m"
  using month_cases [OF assms]
  by (elim disjE) (simp_all add: days_before_month_def)

lemma day_of_year_bounds:
  assumes "valid_date d"
  shows "1 \<le> days_before_month (year d) (month d) + day d"
    and "days_before_month (year d) (month d) + day d \<le> days_in_year (year d)"
proof -
  have m: "1 \<le> month d" "month d \<le> 12" and dd: "1 \<le> day d" "day d \<le> days_in_month (year d) (month d)"
    using assms by (simp_all add: valid_date_def)
  show "1 \<le> days_before_month (year d) (month d) + day d"
    using days_before_month_nonneg [OF m, of "year d"] dd by linarith
  have "days_before_month (year d) (month d) + days_in_month (year d) (month d) \<le> days_in_year (year d)"
  proof (cases "month d = 12")
    case True
    then show ?thesis using days_before_month_step [OF m, of "year d"] by simp
  next
    case False
    then have "month d < 12" using m by simp
    from days_before_month_mono [OF m(1) this, of "year d"]
    have "days_before_month (year d) (month d) + days_in_month (year d) (month d)
            \<le> days_before_month (year d) 12" by simp
    also have "\<dots> \<le> days_in_year (year d)"
      using days_before_month_step [of 12 "year d"] by (simp add: days_in_month_def)
    finally show ?thesis .
  qed
  then show "days_before_month (year d) (month d) + day d \<le> days_in_year (year d)"
    using dd by linarith
qed

lemma toordinal_mono:
  assumes "valid_date a" and "valid_date b" and "date_less a b"
  shows "toordinal a < toordinal b"
proof -
  consider (y) "year a < year b"
    | (m) "year a = year b" "month a < month b"
    | (d) "year a = year b" "month a = month b" "day a < day b"
    using assms(3) by (auto simp: date_less_def)
  then show ?thesis
  proof cases
    case y
    have "toordinal a \<le> days_before_year (year a) + days_in_year (year a)"
      using day_of_year_bounds(2) [OF assms(1)] by (simp add: toordinal_def)
    also have "\<dots> \<le> days_before_year (year b)"
      using days_before_year_mono [OF y] .
    also have "\<dots> < toordinal b"
      using day_of_year_bounds(1) [OF assms(2)] by (simp add: toordinal_def)
    finally show ?thesis .
  next
    case m
    have "days_before_month (year a) (month a) + day a
            \<le> days_before_month (year a) (month a) + days_in_month (year a) (month a)"
      using assms(1) by (simp add: valid_date_def)
    also have "\<dots> \<le> days_before_month (year a) (month b)"
      using days_before_month_mono [of "month a" "month b" "year a"] m assms(1,2)
      by (simp add: valid_date_def)
    also have "\<dots> < days_before_month (year b) (month b) + day b"
      using assms(2) m by (simp add: valid_date_def)
    finally show ?thesis using m by (simp add: toordinal_def)
  next
    case d
    then show ?thesis by (simp add: toordinal_def)
  qed
qed

lemma date_trichotomy: "date_less a b \<or> a = b \<or> date_less b a"
  by (cases a; cases b) (auto simp: date_less_def)

lemma date_less_iff_toordinal:
  assumes "valid_date a" and "valid_date b"
  shows "date_less a b \<longleftrightarrow> toordinal a < toordinal b"
proof
  assume "date_less a b"
  then show "toordinal a < toordinal b" using toordinal_mono assms by blast
next
  assume lt: "toordinal a < toordinal b"
  show "date_less a b"
  proof (rule ccontr)
    assume "\<not> date_less a b"
    then have "a = b \<or> date_less b a" using date_trichotomy by blast
    then show False
      using lt toordinal_mono [OF assms(2) assms(1)] by auto
  qed
qed

lemma toordinal_ge_1:
  assumes "valid_date d"
  shows "1 \<le> toordinal d"
proof -
  have "0 \<le> days_before_year (year d)"
  proof (cases "year d = 1")
    case True
    then show ?thesis by (simp add: days_before_year_def)
  next
    case False
    then have "1 < year d" using assms by (simp add: valid_date_def)
    from days_before_year_mono [OF this]
    have "days_before_year 1 + days_in_year 1 \<le> days_before_year (year d)" .
    moreover have "days_before_year 1 = 0" by (simp add: days_before_year_def)
    moreover have "0 \<le> days_in_year 1" by (simp add: days_in_year_def)
    ultimately show ?thesis by linarith
  qed
  then show ?thesis
    using day_of_year_bounds(1) [OF assms] by (simp add: toordinal_def)
qed

lemma prev_day_correct:
  assumes "valid_date d" and "1 < toordinal d"
  shows "valid_date (prev_day d) \<and> toordinal (prev_day d) = toordinal d - 1"
proof -
  have m: "1 \<le> month d" "month d \<le> 12" and dd: "1 \<le> day d" "day d \<le> days_in_month (year d) (month d)"
    and yy: "1 \<le> year d" "year d \<le> 9999"
    using assms by (simp_all add: valid_date_def)
  consider (day) "1 < day d" | (mon) "day d = 1" "1 < month d" | (yr) "day d = 1" "month d = 1"
    using m dd by linarith
  then show ?thesis
  proof cases
    case day
    then show ?thesis
      using assms(1) by (simp add: prev_day_def valid_date_def toordinal_def)
  next
    case mon
    have p: "prev_day d = \<lparr>year = year d, month = month d - 1, day = days_in_month (year d) (month d - 1)\<rparr>"
      using mon by (simp add: prev_day_def)
    have "1 \<le> days_in_month (year d) (month d - 1)"
      by (simp add: days_in_month_def)
    then have v: "valid_date (prev_day d)"
      using mon m yy by (simp add: p valid_date_def)
    have "days_before_month (year d) (month d - 1) + days_in_month (year d) (month d - 1)
            = days_before_month (year d) (month d)"
      using days_before_month_step [of "month d - 1" "year d"] mon m by simp
    then have "toordinal (prev_day d) = toordinal d - 1"
      using mon by (simp add: p toordinal_def)
    with v show ?thesis by simp
  next
    case yr
    have y1: "1 < year d"
    proof (rule ccontr)
      assume "\<not> 1 < year d"
      then have "year d = 1" using yy by simp
      then have "toordinal d = 1"
        using yr by (simp add: toordinal_def days_before_year_def days_before_month_def)
      then show False using assms(2) by simp
    qed
    have p: "prev_day d = \<lparr>year = year d - 1, month = 12, day = 31\<rparr>"
      using yr by (simp add: prev_day_def)
    have v: "valid_date (prev_day d)"
      using y1 yy by (simp add: p valid_date_def days_in_month_def)
    have "days_before_year (year d) = days_before_year (year d - 1) + days_in_year (year d - 1)"
      using days_before_year_Suc [of "year d - 1"] by simp
    moreover have "days_before_month (year d - 1) 12 + 31 = days_in_year (year d - 1)"
      using days_before_month_step [of 12 "year d - 1"] by (simp add: days_in_month_def)
    ultimately have "toordinal (prev_day d) = toordinal d - 1"
      using yr by (simp add: p toordinal_def days_before_month_def)
    with v show ?thesis by simp
  qed
qed

lemma days_back_correct:
  "valid_date d \<Longrightarrow> int n < toordinal d \<Longrightarrow>
     valid_date (days_back n d) \<and> toordinal (days_back n d) = toordinal d - int n"
proof (induction n arbitrary: d)
  case 0
  then show ?case by simp
next
  case (Suc n)
  have "1 < toordinal d" using Suc.prems(2) by simp
  from prev_day_correct [OF Suc.prems(1) this]
  have v: "valid_date (prev_day d)" and t: "toordinal (prev_day d) = toordinal d - 1" by simp_all
  have "int n < toordinal (prev_day d)" using t Suc.prems(2) by simp
  from Suc.IH [OF v this] t show ?case by simp
qed

section \<open>The error list of validate\_record\<close>

text \<open>Every rule only appends to the list it is given.\<close>

lemma rule_health_card_append:
  "rule_health_card hc errors =
     (case rule_health_card hc [] of Inl e \<Rightarrow> Inl e | Inr m \<Rightarrow> Inr (errors @ m))"
  by (simp add: rule_health_card_def split: sum.splits)

lemma rule_version_code_append:
  "rule_version_code vc errors = errors @ rule_version_code vc []"
  by (simp add: rule_version_code_def)

lemma parse_date_flex_append:
  "parse_date_flex s f errors =
     (fst (parse_date_flex s f []), errors @ snd (parse_date_flex s f []))"
  by (simp add: parse_date_flex_def Let_def split: option.splits)

lemma parse_date_flex_fst:
  "fst (parse_date_flex s f errors) = fst (parse_date_flex s f [])"
  by (simp add: parse_date_flex_def Let_def split: option.splits)

lemma parse_date_flex_snd:
  "snd (parse_date_flex s f errors) = errors @ snd (parse_date_flex s f [])"
  by (simp add: parse_date_flex_def Let_def split: option.splits)

lemma rule_date_of_birth_append:
  "rule_date_of_birth dob today errors = errors @ rule_date_of_birth dob today []"
  by (simp add: rule_date_of_birth_def Let_def split: option.splits)

lemma rule_service_date_append:
  "rule_service_date sd dob today errors =
     (case rule_service_date sd dob today [] of Inl e \<Rightarrow> Inl e | Inr m \<Rightarrow> Inr (errors @ m))"
  by (simp add: rule_service_date_def Let_def split: option.splits sum.splits)

lemma rule_patient_id_append:
  "rule_patient_id pid errors = errors @ rule_patient_id pid []"
  by (simp add: rule_patient_id_def)

lemma run_rules_decomp:
  "run_rules raw today =
     (case health_card_errors raw of
        Inl e \<Rightarrow> Inl e
      | Inr hc \<Rightarrow>
          (case service_date_errors raw today of
             Inl e \<Rightarrow> Inl e
           | Inr sd \<Rightarrow>
               Inr (hc @ version_code_errors raw @ date_of_birth_errors raw today @ sd
                      @ patient_id_errors raw,
                    dob_parsed raw, service_parsed raw)))"
proof (cases "health_card_errors raw")
  case (Inl e)
  then show ?thesis by (simp add: run_rules_def health_card_errors_def)
next
  case (Inr hc)
  define e2 where "e2 = rule_version_code (get_version_code raw) hc"
  define e3 where "e3 = snd (parse_date_flex (get_dob_str raw) ''Date of birth'' e2)"
  define e4 where "e4 = rule_date_of_birth (dob_parsed raw) today e3"
  define e5 where "e5 = snd (parse_date_flex (get_service_str raw) ''Service date'' e4)"
  have p1: "parse_date_flex (get_dob_str raw) ''Date of birth'' e2 = (dob_parsed raw, e3)"
    unfolding dob_parsed_def e3_def
    using parse_date_flex_fst [of "get_dob_str raw" "''Date of birth''" e2]
    by (simp add: prod_eq_iff)
  have p2: "parse_date_flex (get_service_str raw) ''Service date'' e4 = (service_parsed raw, e5)"
    unfolding service_parsed_def e5_def
    using parse_date_flex_fst [of "get_service_str raw" "''Service date''" e4]
    by (simp add: prod_eq_iff)
  have r: "run_rules raw today =
     (case rule_service_date (service_parsed raw) (dob_parsed raw) today e5 of
        Inl e \<Rightarrow> Inl e
      | Inr e6 \<Rightarrow> Inr (rule_patient_id (get_patient_id raw) e6, dob_parsed raw, service_parsed raw))"
    using Inr p1 p2
    by (simp add: run_rules_def health_card_errors_def Let_def e2_def [symmetric] e4_def [symmetric])
  have e5: "e5 = hc @ version_code_errors raw @ date_of_birth_errors raw today
                  @ snd (parse_date_flex (get_service_str raw) ''Service date'' [])"
  proof -
    have "e2 = hc @ version_code_errors raw"
      unfolding e2_def version_code_errors_def by (rule rule_version_code_append)
    moreover have "e3 = e2 @ snd (parse_date_flex (get_dob_str raw) ''Date of birth'' [])"
      unfolding e3_def by (rule parse_date_flex_snd)
    moreover have "e4 = e3 @ rule_date_of_birth (dob_parsed raw) today []"
      unfolding e4_def by (rule rule_date_of_birth_append)
    moreover have "e5 = e4 @ snd (parse_date_flex (get_service_str raw) ''Service date'' [])"
      unfolding e5_def by (rule parse_date_flex_snd)
    ultimately show ?thesis by (simp add: date_of_birth_errors_def)
  qed
  show ?thesis
  proof (cases "rule_service_date (service_parsed raw) (dob_parsed raw) today []")
    case (Inl e)
    then show ?thesis
      using Inr r rule_service_date_append [of "service_parsed raw" "dob_parsed raw" today e5]
      by (simp add: service_date_errors_def)
  next
    case (Inr m)
    then show ?thesis
      using \<open>health_card_errors raw = Inr hc\<close> r e5
        rule_service_date_append [of "service_parsed raw" "dob_parsed raw" today e5]
        rule_patient_id_append [of "get_patient_id raw" "e5 @ m"]
      by (simp add: service_date_errors_def patient_id_errors_def)
  qed
qed

lemma validate_record_Inr:
  assumes "validate_record raw today = Inr (ok, errs, rec)"
  shows "\<exists>hc sd. health_card_errors raw = Inr hc \<and> service_date_errors raw today = Inr sd \<and>
           run_rules raw today =
             Inr (hc @ version_code_errors raw @ date_of_birth_errors raw today @ sd
                    @ patient_id_errors raw, dob_parsed raw, service_parsed raw) \<and>
           errs = hc @ version_code_errors raw @ date_of_birth_errors raw today @ sd
                    @ patient_id_errors raw \<and>
           ok = (errs = []) \<and>
           rec = (if ok then Some \<lparr>PatientID = get_patient_id raw,
                             HealthCardNumber = get_health_card raw,
                             VersionCode = get_version_code raw,
                             DateOfBirth = (case dob_parsed raw of Some d \<Rightarrow> ustr (isoformat d) | None \<Rightarrow> []),
                             ServiceDate = (case service_parsed raw of Some d \<Rightarrow> ustr (isoformat d) | None \<Rightarrow> [])\<rparr>
                  else None)"
proof -
  obtain hc where hc: "health_card_errors raw = Inr hc"
    using assms by (cases "health_card_errors raw") (simp_all add: validate_record_def run_rules_decomp)
  obtain sd where sd: "service_date_errors raw today = Inr sd"
    using assms hc by (cases "service_date_errors raw today") (simp_all add: validate_record_def run_rules_decomp)
  show ?thesis
    using assms hc sd
    by (auto simp: validate_record_def run_rules_decomp Let_def split: if_splits)
qed

lemma validate_record_returns:
  assumes "health_card_errors raw = Inr hc" and "service_date_errors raw today = Inr sd"
  shows "\<exists>ok errs rec. validate_record raw today = Inr (ok, errs, rec)"
  using assms by (auto simp: validate_record_def run_rules_decomp Let_def)

text \<open>The messages each rule can add.\<close>

lemma health_card_errors_eq:
  "health_card_errors raw =
     (if get_health_card raw = [] then Inr [''Health card number is missing'']
      else if \<not> isdigit (get_health_card raw)
      then Inr [''Health card number must contain only digits'']
      else if length (get_health_card raw) \<noteq> 10
      then Inr [''Health card number must be exactly 10 digits'']
      else case luhn_check (get_health_card raw) of
             Inl e \<Rightarrow> Inl e
           | Inr b \<Rightarrow> if b then Inr [] else Inr [''Health card number failed MOD 10 (Luhn) validation''])"
  by (simp add: health_card_errors_def rule_health_card_def split: sum.splits)

lemma version_code_errors_eq:
  "version_code_errors raw =
     (if get_version_code raw = [] then [''Version code is missing'']
      else if length (get_version_code raw) \<noteq> 2 then [''Version code must be exactly 2 characters'']
      else if \<not> isalpha (get_version_code raw) then [''Version code must contain only letters A-Z'']
      else if \<not> isupper (get_version_code raw) then [''Version code must be uppercase letters (A-Z)'']
      else [])"
  by (simp add: version_code_errors_def rule_version_code_def)

lemma in_health_card_errors:
  "health_card_errors raw = Inr m \<Longrightarrow> x \<in> set m \<Longrightarrow> x \<in> set health_card_messages"
  by (auto simp: health_card_errors_eq health_card_messages_def split: if_splits sum.splits)

lemma in_version_code_errors:
  "x \<in> set (version_code_errors raw) \<Longrightarrow> x \<in> set version_code_messages"
  by (auto simp: version_code_errors_eq version_code_messages_def split: if_splits)

lemma in_date_of_birth_errors:
  "x \<in> set (date_of_birth_errors raw today) \<Longrightarrow> x \<in> set date_of_birth_messages"
  by (auto simp: date_of_birth_errors_def parse_date_flex_def rule_date_of_birth_def
        date_of_birth_messages_def Let_def split: if_splits option.splits)

lemma in_service_date_errors:
  "service_date_errors raw today = Inr m \<Longrightarrow> x \<in> set m \<Longrightarrow> x \<in> set service_date_messages"
  by (auto simp: service_date_errors_def parse_date_flex_def rule_service_date_def
        service_date_messages_def Let_def split: if_splits option.splits sum.splits)

lemma in_patient_id_errors:
  "x \<in> set (patient_id_errors raw) \<Longrightarrow> x \<in> set patient_id_messages"
  by (auto simp: patient_id_errors_def rule_patient_id_def patient_id_messages_def split: if_splits)

lemma messages_distinct:
  "distinct (health_card_messages @ version_code_messages @ date_of_birth_messages
               @ service_date_messages @ patient_id_messages)"
  by (simp add: health_card_messages_def version_code_messages_def date_of_birth_messages_def
        service_date_messages_def patient_id_messages_def)

lemma message_classes_disjoint:
  "set health_card_messages \<inter> set version_code_messages = {}"
  "set health_card_messages \<inter> set date_of_birth_messages = {}"
  "set health_card_messages \<inter> set service_date_messages = {}"
  "set health_card_messages \<inter> set patient_id_messages = {}"
  "set version_code_messages \<inter> set date_of_birth_messages = {}"
  "set version_code_messages \<inter> set service_date_messages = {}"
  "set version_code_messages \<inter> set patient_id_messages = {}"
  "set date_of_birth_messages \<inter> set service_date_messages = {}"
  "set date_of_birth_messages \<inter> set patient_id_messages = {}"
  "set service_date_messages \<inter> set patient_id_messages = {}"
  using messages_distinct by (simp_all only: distinct_append set_append) blast+

lemma filter_other_class:
  assumes "\<And>x. x \<in> set ys \<Longrightarrow> x \<in> set B" and "set A \<inter> set B = {}"
  shows "filter (\<lambda>e. e \<in> set A) ys = []"
  using assms by (auto simp: filter_empty_conv)

lemma filter_own_class:
  assumes "\<And>x. x \<in> set ys \<Longrightarrow> x \<in> set A"
  shows "filter (\<lambda>e. e \<in> set A) ys = ys"
  using assms by (simp add: filter_id_conv)

text \<open>The returned list, filtered by the messages of one rule, is what that rule added.\<close>

lemma validate_record_filter:
  assumes "validate_record raw today = Inr (ok, errs, rec)"
  shows "health_card_errors raw = Inr (filter (\<lambda>e. e \<in> set health_card_messages) errs)"
    and "filter (\<lambda>e. e \<in> set version_code_messages) errs = version_code_errors raw"
    and "filter (\<lambda>e. e \<in> set date_of_birth_messages) errs = date_of_birth_errors raw today"
    and "service_date_errors raw today = Inr (filter (\<lambda>e. e \<in> set service_date_messages) errs)"
    and "filter (\<lambda>e. e \<in> set patient_id_messages) errs = patient_id_errors raw"
proof -
  from validate_record_Inr [OF assms] obtain hc sd where
    hc: "health_card_errors raw = Inr hc" and sd: "service_date_errors raw today = Inr sd" and
    errs: "errs = hc @ version_code_errors raw @ date_of_birth_errors raw today @ sd
                    @ patient_id_errors raw"
    by blast
  note d = message_classes_disjoint
  note i1 = in_health_card_errors [OF hc] and i2 = in_version_code_errors [of _ raw]
    and i3 = in_date_of_birth_errors [of _ raw today] and i4 = in_service_date_errors [OF sd]
    and i5 = in_patient_id_errors [of _ raw]
  have "filter (\<lambda>e. e \<in> set health_card_messages) errs = hc"
    unfolding errs filter_append
    using filter_own_class [of hc health_card_messages, OF i1]
      filter_other_class [of "version_code_errors raw" version_code_messages health_card_messages, OF i2]
      filter_other_class [of "date_of_birth_errors raw today" date_of_birth_messages health_card_messages, OF i3]
      filter_other_class [of sd service_date_messages health_card_messages, OF i4]
      filter_other_class [of "patient_id_errors raw" patient_id_messages health_card_messages, OF i5]
      d by simp
  then show "health_card_errors raw = Inr (filter (\<lambda>e. e \<in> set health_card_messages) errs)"
    using hc by simp
  show "filter (\<lambda>e. e \<in> set version_code_messages) errs = version_code_errors raw"
    unfolding errs filter_append
    using filter_own_class [of "version_code_errors raw" version_code_messages, OF i2]
      filter_other_class [of hc health_card_messages version_code_messages, OF i1]
      filter_other_class [of "date_of_birth_errors raw today" date_of_birth_messages version_code_messages, OF i3]
      filter_other_class [of sd service_date_messages version_code_messages, OF i4]
      filter_other_class [of "patient_id_errors raw" patient_id_messages version_code_messages, OF i5]
      d by (simp add: Int_commute)
  show "filter (\<lambda>e. e \<in> set date_of_birth_messages) errs = date_of_birth_errors raw today"
    unfolding errs filter_append
    using filter_own_class [of "date_of_birth_errors raw today" date_of_birth_messages, OF i3]
      filter_other_class [of hc health_card_messages date_of_birth_messages, OF i1]
      filter_other_class [of "version_code_errors raw" version_code_messages date_of_birth_messages, OF i2]
      filter_other_class [of sd service_date_messages date_of_birth_messages, OF i4]
      filter_other_class [of "patient_id_errors raw" patient_id_messages date_of_birth_messages, OF i5]
      d by (simp add: Int_commute)
  have "filter (\<lambda>e. e \<in> set service_date_messages) errs = sd"
    unfolding errs filter_append
    using filter_own_class [of sd service_date_messages, OF i4]
      filter_other_class [of hc health_card_messages service_date_messages, OF i1]
      filter_other_class [of "version_code_errors raw" version_code_messages service_date_messages, OF i2]
      filter_other_class [of "date_of_birth_errors raw today" date_of_birth_messages service_date_messages, OF i3]
      filter_other_class [of "patient_id_errors raw" patient_id_messages service_date_messages, OF i5]
      d by (simp add: Int_commute)
  then show "service_date_errors raw today = Inr (filter (\<lambda>e. e \<in> set service_date_messages) errs)"
    using sd by simp
  show "filter (\<lambda>e. e \<in> set patient_id_messages) errs = patient_id_errors raw"
    unfolding errs filter_append
    using filter_own_class [of "patient_id_errors raw" patient_id_messages, OF i5]
      filter_other_class [of hc health_card_messages patient_id_messages, OF i1]
      filter_other_class [of "version_code_errors raw" version_code_messages patient_id_messages, OF i2]
      filter_other_class [of "date_of_birth_errors raw today" date_of_birth_messages patient_id_messages, OF i3]
      filter_other_class [of sd service_date_messages patient_id_messages, OF i4]
      d by (simp add: Int_commute)
qed

lemma mem_filter_class: "x \<in> set A \<Longrightarrow> (x \<in> set errs \<longleftrightarrow> x \<in> set (filter (\<lambda>e. e \<in> set A) errs))"
  by simp

section \<open>The example inputs, evaluated\<close>


lemma ev_scenario_b:
  "validate_record record_scenario_b today_2024 =
     Inr (False, [''Health card number must be exactly 10 digits'',
                  ''Version code must be uppercase letters (A-Z)'',
                  ''Date of birth is in the future'',
                  ''Service date is before date of birth''], None)"
  by code_simp

lemma ev_183_days:
  "validate_record record_183_days today_2024 =
     Inr (True, [],
          Some \<lparr>PatientID = ustr ''P003'', HealthCardNumber = ustr ''1234567897'', VersionCode = ustr ''ON'',
                DateOfBirth = ustr ''1990-05-15'', ServiceDate = ustr ''2023-12-15''\<rparr>)"
  by code_simp

lemma ev_184_days:
  "validate_record record_184_days today_2024 =
     Inr (False, [''Service date is more than 6 months in the past''], None)"
  by code_simp

section \<open>The cascades of rule 1 and rule 2\<close>

lemma health_card_cases:
  assumes "health_card_errors raw = Inr m"
  shows "(get_health_card raw = [] \<and> m = [''Health card number is missing'']) \<or>
         (get_health_card raw \<noteq> [] \<and> \<not> isdigit (get_health_card raw)
            \<and> m = [''Health card number must contain only digits'']) \<or>
         (get_health_card raw \<noteq> [] \<and> isdigit (get_health_card raw)
            \<and> length (get_health_card raw) \<noteq> 10
            \<and> m = [''Health card number must be exactly 10 digits'']) \<or>
         (get_health_card raw \<noteq> [] \<and> isdigit (get_health_card raw)
            \<and> length (get_health_card raw) = 10 \<and> luhn_check (get_health_card raw) = Inr False
            \<and> m = [''Health card number failed MOD 10 (Luhn) validation'']) \<or>
         (get_health_card raw \<noteq> [] \<and> isdigit (get_health_card raw)
            \<and> length (get_health_card raw) = 10 \<and> luhn_check (get_health_card raw) = Inr True
            \<and> m = [])"
  using assms unfolding health_card_errors_eq
  by (simp split: if_splits sum.splits)

lemma version_code_cases:
  "(get_version_code raw = [] \<and> version_code_errors raw = [''Version code is missing'']) \<or>
   (get_version_code raw \<noteq> [] \<and> length (get_version_code raw) \<noteq> 2
      \<and> version_code_errors raw = [''Version code must be exactly 2 characters'']) \<or>
   (get_version_code raw \<noteq> [] \<and> length (get_version_code raw) = 2
      \<and> \<not> isalpha (get_version_code raw)
      \<and> version_code_errors raw = [''Version code must contain only letters A-Z'']) \<or>
   (get_version_code raw \<noteq> [] \<and> length (get_version_code raw) = 2
      \<and> isalpha (get_version_code raw) \<and> \<not> isupper (get_version_code raw)
      \<and> version_code_errors raw = [''Version code must be uppercase letters (A-Z)'']) \<or>
   (get_version_code raw \<noteq> [] \<and> length (get_version_code raw) = 2
      \<and> isalpha (get_version_code raw) \<and> isupper (get_version_code raw)
      \<and> version_code_errors raw = [])"
  unfolding version_code_errors_eq by simp



section \<open>The negative-age branch\<close>

lemma age_nonneg:
  assumes "\<not> date_less today dob"
  shows "0 \<le> age_in_years dob today"
proof (cases "year dob < year today")
  case True
  then show ?thesis by (simp add: age_in_years_def Let_def)
next
  case False
  with assms have "year dob = year today"
    and "\<not> (month today < month dob \<or> (month today = month dob \<and> day today < day dob))"
    by (auto simp: date_less_def)
  then show ?thesis by (simp add: age_in_years_def Let_def)
qed

lemma negative_age_not_in_rule:
  assumes a: "''Patient age cannot be negative'' \<in> set (rule_date_of_birth dob today errors)"
  shows "''Patient age cannot be negative'' \<in> set errors"
proof (cases dob)
  case None
  then show ?thesis using a by (simp add: rule_date_of_birth_def)
next
  case (Some d)
  show ?thesis
  proof (cases "date_less today d")
    case True
    then show ?thesis using a Some by (simp add: rule_date_of_birth_def)
  next
    case False
    then have "\<not> age_in_years d today < 0" using age_nonneg [of today d] by simp
    then show ?thesis using a Some False
      by (simp add: rule_date_of_birth_def Let_def split: if_splits)
  qed
qed

lemma negative_age_not_added:
  "''Patient age cannot be negative'' \<notin> set (date_of_birth_errors raw today)"
proof -
  have "''Patient age cannot be negative''
          \<notin> set (snd (parse_date_flex (get_dob_str raw) ''Date of birth'' []))"
    by (simp add: parse_date_flex_def Let_def split: option.splits)
  moreover have "''Patient age cannot be negative''
          \<notin> set (rule_date_of_birth (dob_parsed raw) today [])"
    using negative_age_not_in_rule [of "dob_parsed raw" today "[]"] by auto
  ultimately show ?thesis by (simp add: date_of_birth_errors_def)
qed

text \<open>
  C8. When the date of birth is not after today, the completed-years age is not negative;
  so rule 3 never adds the message \<open>Patient age cannot be negative\<close> to the list it is
  given, and no list returned by \<open>validate_record\<close> holds it.
\<close>

theorem negative_age_unreachable:
  "(\<not> date_less today dob \<longrightarrow> 0 \<le> age_in_years dob today) \<and>
   (''Patient age cannot be negative'' \<in> set (rule_date_of_birth (Some dob) today errors)
      \<longrightarrow> ''Patient age cannot be negative'' \<in> set errors) \<and>
   (\<forall>ok errs rec. validate_record raw today = Inr (ok, errs, rec) \<longrightarrow>
      ''Patient age cannot be negative'' \<notin> set errs)"
proof -
  have a: "\<not> date_less today dob \<longrightarrow> 0 \<le> age_in_years dob today"
    using age_nonneg by blast
  have b: "''Patient age cannot be negative'' \<in> set (rule_date_of_birth (Some dob) today errors)
      \<longrightarrow> ''Patient age cannot be negative'' \<in> set errors"
    using negative_age_not_in_rule by blast
  have c: "''Patient age cannot be negative'' \<notin> set errs"
    if "validate_record raw today = Inr (ok, errs, rec)" for ok errs rec
  proof -
    have "''Patient age cannot be negative'' \<in> set date_of_birth_messages"
      by (simp add: date_of_birth_messages_def)
    then have "''Patient age cannot be negative'' \<in> set errs \<longleftrightarrow>
       ''Patient age cannot be negative'' \<in> set (filter (\<lambda>e. e \<in> set date_of_birth_messages) errs)"
      by simp
    then show ?thesis
      using negative_age_not_added [of raw today] validate_record_filter(3) [OF that] by simp
  qed
  from a b c show ?thesis by blast
qed

theorem negative_age_unreachable_witness:
  "\<not> date_less \<lparr>year = 2025, month = 1, day = 1\<rparr> \<lparr>year = 2000, month = 12, day = 31\<rparr> \<and>
   0 \<le> age_in_years \<lparr>year = 2000, month = 12, day = 31\<rparr> \<lparr>year = 2025, month = 1, day = 1\<rparr> \<and>
   age_in_years \<lparr>year = 2000, month = 12, day = 31\<rparr> \<lparr>year = 2025, month = 1, day = 1\<rparr> = 24 \<and>
   validate_record record_scenario_b today_2024 =
     Inr (False, [''Health card number must be exactly 10 digits'',
                  ''Version code must be uppercase letters (A-Z)'',
                  ''Date of birth is in the future'',
                  ''Service date is before date of birth''], None) \<and>
   ''Patient age cannot be negative''
     \<notin> set [''Health card number must be exactly 10 digits'',
              ''Version code must be uppercase letters (A-Z)'',
              ''Date of birth is in the future'',
              ''Service date is before date of birth'']"
proof -
  have n: "\<not> date_less \<lparr>year = 2025, month = 1, day = 1\<rparr> \<lparr>year = 2000, month = 12, day = 31\<rparr>"
    by (simp add: date_less_def)
  have e: "age_in_years \<lparr>year = 2000, month = 12, day = 31\<rparr> \<lparr>year = 2025, month = 1, day = 1\<rparr> = 24"
    by (simp add: age_in_years_def)
  from negative_age_unreachable [of "\<lparr>year = 2025, month = 1, day = 1\<rparr>"
      "\<lparr>year = 2000, month = 12, day = 31\<rparr>" "[]" record_scenario_b] n e ev_scenario_b
  show ?thesis by simp
qed

section \<open>Rule 4: the service date\<close>

lemma strptime_valid: "strptime s p = Some d \<Longrightarrow> valid_date d"
  by (auto simp: strptime_def mk_date_def Let_def split: option.splits prod.splits if_splits)

lemma try_patterns_valid: "try_patterns s ps = Some d \<Longrightarrow> valid_date d"
  by (induction ps) (auto split: option.splits dest: strptime_valid)

lemma parse_date_flex_Some:
  assumes "fst (parse_date_flex s f e) = Some d"
  shows "valid_date d" and "snd (parse_date_flex s f e) = e"
    and "try_patterns (strip s) patterns = Some d"
  using assms
  by (auto simp: parse_date_flex_def Let_def split: if_splits option.splits dest: try_patterns_valid)

lemma date_sub_days_Inr:
  assumes "valid_date d" and "date_sub_days d n = Inr r"
  shows "valid_date r" and "toordinal r = toordinal d - int n"
proof -
  have "int n < toordinal d" and "r = days_back n d"
    using assms(2) by (auto simp: date_sub_days_def split: if_splits)
  then show "valid_date r" and "toordinal r = toordinal d - int n"
    using days_back_correct [OF assms(1), of n] by simp_all
qed

lemma rule_service_date_eval:
  assumes "valid_date today" and "valid_date sd"
    and "rule_service_date (Some sd) dob today [] = Inr m"
  shows "m = (if date_less today sd then [''Service date is in the future''] else [])
           @ (case dob of
                None \<Rightarrow> []
              | Some d \<Rightarrow> if date_less sd d then [''Service date is before date of birth''] else [])
           @ (if toordinal sd < toordinal today - 183
              then [''Service date is more than 6 months in the past''] else [])"
proof (cases "date_sub_days today 183")
  case (Inl e)
  then show ?thesis using assms(3) by (simp add: rule_service_date_def Let_def)
next
  case (Inr six_months_ago)
  from date_sub_days_Inr [OF assms(1) Inr]
  have "valid_date six_months_ago" and "toordinal six_months_ago = toordinal today - 183"
    by simp_all
  then have "date_less sd six_months_ago \<longleftrightarrow> toordinal sd < toordinal today - 183"
    using date_less_iff_toordinal [OF assms(2), of six_months_ago] by simp
  then show ?thesis
    using assms(3) Inr
    by (auto simp: rule_service_date_def Let_def split: option.splits if_splits)
qed

lemma service_date_errors_eval:
  assumes "valid_date today" and "service_parsed raw = Some sd"
    and "service_date_errors raw today = Inr m"
  shows "m = (if date_less today sd then [''Service date is in the future''] else [])
           @ (case dob_parsed raw of
                None \<Rightarrow> []
              | Some d \<Rightarrow> if date_less sd d then [''Service date is before date of birth''] else [])
           @ (if toordinal sd < toordinal today - 183
              then [''Service date is more than 6 months in the past''] else [])"
proof -
  have p: "fst (parse_date_flex (get_service_str raw) ''Service date'' []) = Some sd"
    using assms(2) by (simp add: service_parsed_def)
  note v = parse_date_flex_Some(1) [OF p] and e = parse_date_flex_Some(2) [OF p]
  obtain m' where m': "rule_service_date (Some sd) (dob_parsed raw) today [] = Inr m'"
    and "m = m'"
    using assms(2,3) e by (auto simp: service_date_errors_def split: sum.splits)
  with rule_service_date_eval [OF assms(1) v m'] show ?thesis by simp
qed

text \<open>
  C7. For a reference date of the calendar, a call of \<open>validate_record\<close> that returns, and
  a service date that parses and is not after today: the message \<open>Service date is more
  than 6 months in the past\<close> is in the returned list exactly when the service date is
  more than 183 days before today. A service date exactly 183 days before today is not
  flagged; one 184 days before today is.
\<close>

theorem six_month_window:
  assumes "valid_date today"
    and "validate_record raw today = Inr (ok, errs, rec)"
    and "service_parsed raw = Some sd"
    and "\<not> date_less today sd"
  shows "(''Service date is more than 6 months in the past'' \<in> set errs
            \<longleftrightarrow> toordinal sd < toordinal today - 183) \<and>
         (toordinal sd = toordinal today - 183
            \<longrightarrow> ''Service date is more than 6 months in the past'' \<notin> set errs) \<and>
         (toordinal sd = toordinal today - 184
            \<longrightarrow> ''Service date is more than 6 months in the past'' \<in> set errs)"
proof -
  define m where "m = filter (\<lambda>e. e \<in> set service_date_messages) errs"
  have sde: "service_date_errors raw today = Inr m"
    unfolding m_def by (rule validate_record_filter(4) [OF assms(2)])
  have "''Service date is more than 6 months in the past'' \<in> set service_date_messages"
    by (simp add: service_date_messages_def)
  then have "''Service date is more than 6 months in the past'' \<in> set errs
               \<longleftrightarrow> ''Service date is more than 6 months in the past'' \<in> set m"
    by (simp add: m_def)
  also have "\<dots> \<longleftrightarrow> toordinal sd < toordinal today - 183"
    unfolding service_date_errors_eval [OF assms(1) assms(3) sde]
    by (simp split: option.splits)
  finally show ?thesis by simp
qed

theorem six_month_window_witness:
  "valid_date today_2024 \<and>
   service_parsed record_183_days = Some \<lparr>year = 2023, month = 12, day = 15\<rparr> \<and>
   toordinal \<lparr>year = 2023, month = 12, day = 15\<rparr> = toordinal today_2024 - 183 \<and>
   validate_record record_183_days today_2024 =
     Inr (True, [],
          Some \<lparr>PatientID = ustr ''P003'', HealthCardNumber = ustr ''1234567897'', VersionCode = ustr ''ON'',
                DateOfBirth = ustr ''1990-05-15'', ServiceDate = ustr ''2023-12-15''\<rparr>) \<and>
   ''Service date is more than 6 months in the past'' \<notin> set ([]::string list) \<and>
   service_parsed record_184_days = Some \<lparr>year = 2023, month = 12, day = 14\<rparr> \<and>
   toordinal \<lparr>year = 2023, month = 12, day = 14\<rparr> = toordinal today_2024 - 184 \<and>
   validate_record record_184_days today_2024 =
     Inr (False, [''Service date is more than 6 months in the past''], None) \<and>
   ''Service date is more than 6 months in the past''
      \<in> set [''Service date is more than 6 months in the past'']"
proof -
  have v: "valid_date today_2024" by code_simp
  have p3: "service_parsed record_183_days = Some \<lparr>year = 2023, month = 12, day = 15\<rparr>"
    by code_simp
  have p4: "service_parsed record_184_days = Some \<lparr>year = 2023, month = 12, day = 14\<rparr>"
    by code_simp
  have o3: "toordinal \<lparr>year = 2023, month = 12, day = 15\<rparr> = toordinal today_2024 - 183"
    by code_simp
  have o4: "toordinal \<lparr>year = 2023, month = 12, day = 14\<rparr> = toordinal today_2024 - 184"
    by code_simp
  have n3: "\<not> date_less today_2024 \<lparr>year = 2023, month = 12, day = 15\<rparr>" by code_simp
  have n4: "\<not> date_less today_2024 \<lparr>year = 2023, month = 12, day = 14\<rparr>" by code_simp
  from six_month_window [OF v ev_183_days p3 n3] six_month_window [OF v ev_184_days p4 n4]
    v p3 p4 o3 o4 ev_183_days ev_184_days
  show ?thesis by simp
qed

section \<open>The order of the error list\<close>




section \<open>Accepted records\<close>

lemma code_digit_chr: "n < 10 \<Longrightarrow> (of_char (digit_chr n) :: int) = 48 + int n"
proof -
  assume "n < 10"
  then have "(of_char (digit_chr n) :: nat) = 48 + n"
    by (simp add: digit_chr_def)
  then have "int (of_char (digit_chr n)) = int (48 + n)" by (rule arg_cong)
  then show ?thesis by (simp add: of_nat_of_char)
qed

lemma isdecimal_digit_chr: "n < 10 \<Longrightarrow> isdecimal_char (of_char (digit_chr n))"
  by (simp add: isdecimal_char_def code_digit_chr)

lemma dec_digits_decimal: "list_all (\<lambda>c. isdecimal_char (of_char c)) (dec_digits n)"
proof (induction n rule: dec_digits.induct)
  case (1 n)
  show ?case
  proof (cases "n < 10")
    case True
    then show ?thesis by (subst dec_digits.simps) (simp add: isdecimal_digit_chr)
  next
    case False
    then show ?thesis
      using 1 by (subst dec_digits.simps) (simp add: isdecimal_digit_chr)
  qed
qed

lemma length_dec_digits_10: "n < 10 \<Longrightarrow> length (dec_digits n) = 1"
  by (subst dec_digits.simps) simp

lemma length_dec_digits_100: "n < 100 \<Longrightarrow> length (dec_digits n) \<le> 2"
  by (subst dec_digits.simps) (simp add: length_dec_digits_10)

lemma length_dec_digits_1000: "n < 1000 \<Longrightarrow> length (dec_digits n) \<le> 3"
  using length_dec_digits_100 [of "n div 10"] length_dec_digits_10 [of n]
  by (subst dec_digits.simps) auto

lemma length_dec_digits_10000: "n < 10000 \<Longrightarrow> length (dec_digits n) \<le> 4"
  using length_dec_digits_1000 [of "n div 10"] length_dec_digits_10 [of n]
  by (subst dec_digits.simps) auto

lemma length_zero_pad: "length (dec_digits (nat n)) \<le> w \<Longrightarrow> length (zero_pad w n) = w"
  by (simp add: zero_pad_def Let_def)

lemma zero_pad_decimal: "list_all (\<lambda>c. isdecimal_char (of_char c)) (zero_pad w n)"
proof -
  have "isdecimal_char (of_char (CHR ''0''))" by (simp add: isdecimal_char_def)
  then show ?thesis
    using dec_digits_decimal [of "nat n"] by (auto simp: zero_pad_def Let_def list_all_iff)
qed

lemma list_of_length_4: "length xs = 4 \<Longrightarrow> \<exists>a b c d. xs = [a, b, c, d]"
  by (auto simp: eval_nat_numeral length_Suc_conv)

lemma list_of_length_2: "length xs = 2 \<Longrightarrow> \<exists>a b. xs = [a, b]"
  by (auto simp: eval_nat_numeral length_Suc_conv)

lemma isoformat_shape:
  assumes "valid_date d"
  shows "iso_shape (isoformat d)"
proof -
  have y: "nat (year d) < 10000" and m: "nat (month d) < 100" and dd: "nat (day d) < 100"
    using assms by (auto simp: valid_date_def days_in_month_def split: if_splits)
  have "length (zero_pad 4 (year d)) = 4"
    using length_dec_digits_10000 [OF y] by (rule length_zero_pad)
  then obtain y1 y2 y3 y4 where ys: "zero_pad 4 (year d) = [y1, y2, y3, y4]"
    using list_of_length_4 by blast
  have "length (zero_pad 2 (month d)) = 2"
    using length_dec_digits_100 [OF m] by (rule length_zero_pad)
  then obtain m1 m2 where ms: "zero_pad 2 (month d) = [m1, m2]"
    using list_of_length_2 by blast
  have "length (zero_pad 2 (day d)) = 2"
    using length_dec_digits_100 [OF dd] by (rule length_zero_pad)
  then obtain d1 d2 where ds: "zero_pad 2 (day d) = [d1, d2]"
    using list_of_length_2 by blast
  have "list_all (\<lambda>c. isdecimal_char (of_char c)) [y1, y2, y3, y4]"
    "list_all (\<lambda>c. isdecimal_char (of_char c)) [m1, m2]"
    "list_all (\<lambda>c. isdecimal_char (of_char c)) [d1, d2]"
    using zero_pad_decimal [of 4 "year d"] zero_pad_decimal [of 2 "month d"]
      zero_pad_decimal [of 2 "day d"] ys ms ds by simp_all
  then show ?thesis
    by (simp add: iso_shape_def isoformat_def ys ms ds)
qed

text \<open>Among the letters below U+0100, the ones that are not lowercase are uppercase; an
  ideograph is neither.\<close>

lemma alpha_not_lower_upper:
  "isalpha_char c \<Longrightarrow> \<not> islower_char c \<Longrightarrow> \<not> is_ideograph c \<Longrightarrow> isupper_char c"
  unfolding isalpha_char_def islower_char_def isupper_char_def by arith

lemma version_code_uppercase:
  assumes "isalpha s" and "isupper s" and "\<not> list_ex is_ideograph s"
  shows "list_all isupper_char s"
proof -
  have a: "list_all isalpha_char s" using assms(1) by (simp add: isalpha_def)
  have "\<not> list_ex islower_char s"
    using assms(2) by (auto simp: isupper_def list_ex_iff)
  then show ?thesis
    using a assms(3) alpha_not_lower_upper by (auto simp: list_all_iff list_ex_iff)
qed

lemma parse_date_flex_no_error:
  assumes "snd (parse_date_flex s f []) = []"
  shows "\<exists>d. fst (parse_date_flex s f []) = Some d"
  using assms by (auto simp: parse_date_flex_def Let_def split: if_splits option.splits)

lemma rule_date_of_birth_Nil:
  assumes "rule_date_of_birth (Some d) today [] = []"
  shows "\<not> date_less today d \<and> 0 \<le> age_in_years d today \<and> age_in_years d today < 150"
  using assms by (auto simp: rule_date_of_birth_def Let_def split: if_splits)

lemma rule_service_date_Nil:
  assumes "rule_service_date (Some s) dob today [] = Inr []"
  shows "\<not> date_less today s \<and> (\<forall>d. dob = Some d \<longrightarrow> \<not> date_less s d) \<and>
         (\<exists>six_months_ago. date_sub_days today 183 = Inr six_months_ago
                            \<and> \<not> date_less s six_months_ago)"
  using assms
  by (auto simp: rule_service_date_def Let_def split: if_splits option.splits sum.splits)

text \<open>
  What holds of every call that returns: the record is accepted exactly when the list
  collected by the rules is empty, and exactly then a normalized record is returned;
  its health card number is ten decimal digits that pass the MOD-10 check; its version
  code has two characters and passes \<open>str.isalpha\<close> and \<open>str.isupper\<close>; both dates
  parsed, are rendered by \<open>isoformat\<close> in the shape \<open>YYYY-MM-DD\<close>, and are not after
  today (and the service date is not before the date of birth nor before the day 183
  days before today, and the age is from 0 to 149); and its identifier is not empty and
  is the extracted one.
\<close>

lemma accepted_record_invariants:
  assumes "validate_record raw today = Inr (ok, errs, rec)"
  shows "\<exists>collected dob service_date.
           run_rules raw today = Inr (collected, dob, service_date) \<and>
           (ok \<longleftrightarrow> collected = []) \<and> (ok \<longleftrightarrow> rec \<noteq> None) \<and>
           (\<forall>r. rec = Some r \<longrightarrow>
              HealthCardNumber r = get_health_card raw \<and>
              length (HealthCardNumber r) = 10 \<and> list_all isdecimal_char (HealthCardNumber r) \<and>
              luhn_check (HealthCardNumber r) = Inr True \<and>
              luhn_reference (map dval (HealthCardNumber r)) \<and>
              VersionCode r = get_version_code raw \<and>
              length (VersionCode r) = 2 \<and> isalpha (VersionCode r) \<and>
              isupper (VersionCode r) \<and>
              (\<exists>d s. dob = Some d \<and> service_date = Some s \<and>
                 try_patterns (get_dob_str raw) patterns = Some d \<and>
                 try_patterns (get_service_str raw) patterns = Some s \<and>
                 DateOfBirth r = ustr (isoformat d) \<and> ServiceDate r = ustr (isoformat s) \<and>
                 iso_shape (isoformat d) \<and> iso_shape (isoformat s) \<and>
                 \<not> date_less today d \<and> \<not> date_less today s \<and> \<not> date_less s d \<and>
                 0 \<le> age_in_years d today \<and> age_in_years d today < 150 \<and>
                 (\<exists>six_months_ago. date_sub_days today 183 = Inr six_months_ago
                                    \<and> \<not> date_less s six_months_ago)) \<and>
              PatientID r \<noteq> [] \<and> PatientID r = get_patient_id raw)"
proof -
  from validate_record_Inr [OF assms] obtain hc sd where
    hc: "health_card_errors raw = Inr hc" and sd: "service_date_errors raw today = Inr sd" and
    run: "run_rules raw today =
             Inr (hc @ version_code_errors raw @ date_of_birth_errors raw today @ sd
                    @ patient_id_errors raw, dob_parsed raw, service_parsed raw)" and
    errs: "errs = hc @ version_code_errors raw @ date_of_birth_errors raw today @ sd
                    @ patient_id_errors raw" and
    ok: "ok = (errs = [])" and
    rec: "rec = (if ok then Some \<lparr>PatientID = get_patient_id raw,
                             HealthCardNumber = get_health_card raw,
                             VersionCode = get_version_code raw,
                             DateOfBirth = (case dob_parsed raw of Some d \<Rightarrow> ustr (isoformat d) | None \<Rightarrow> []),
                             ServiceDate = (case service_parsed raw of Some d \<Rightarrow> ustr (isoformat d) | None \<Rightarrow> [])\<rparr>
                  else None)"
    by blast
  have inv: "HealthCardNumber r = get_health_card raw \<and>
              length (HealthCardNumber r) = 10 \<and> list_all isdecimal_char (HealthCardNumber r) \<and>
              luhn_check (HealthCardNumber r) = Inr True \<and>
              luhn_reference (map dval (HealthCardNumber r)) \<and>
              VersionCode r = get_version_code raw \<and>
              length (VersionCode r) = 2 \<and> isalpha (VersionCode r) \<and>
              isupper (VersionCode r) \<and>
              (\<exists>d s. dob_parsed raw = Some d \<and> service_parsed raw = Some s \<and>
                 try_patterns (get_dob_str raw) patterns = Some d \<and>
                 try_patterns (get_service_str raw) patterns = Some s \<and>
                 DateOfBirth r = ustr (isoformat d) \<and> ServiceDate r = ustr (isoformat s) \<and>
                 iso_shape (isoformat d) \<and> iso_shape (isoformat s) \<and>
                 \<not> date_less today d \<and> \<not> date_less today s \<and> \<not> date_less s d \<and>
                 0 \<le> age_in_years d today \<and> age_in_years d today < 150 \<and>
                 (\<exists>six_months_ago. date_sub_days today 183 = Inr six_months_ago
                                    \<and> \<not> date_less s six_months_ago)) \<and>
              PatientID r \<noteq> [] \<and> PatientID r = get_patient_id raw"
    if r: "rec = Some r" for r
  proof -
    have okT: ok using r rec by (simp split: if_splits)
    then have parts: "hc = []" "version_code_errors raw = []" "date_of_birth_errors raw today = []"
      "sd = []" "patient_id_errors raw = []"
      using ok errs by simp_all
    have r_eq: "r = \<lparr>PatientID = get_patient_id raw,
                             HealthCardNumber = get_health_card raw,
                             VersionCode = get_version_code raw,
                             DateOfBirth = (case dob_parsed raw of Some d \<Rightarrow> ustr (isoformat d) | None \<Rightarrow> []),
                             ServiceDate = (case service_parsed raw of Some d \<Rightarrow> ustr (isoformat d) | None \<Rightarrow> [])\<rparr>"
      using r rec okT by simp
    \<comment> \<open>rule 1\<close>
    have h: "length (get_health_card raw) = 10 \<and> luhn_check (get_health_card raw) = Inr True"
      using health_card_cases [OF hc] parts(1) by simp
    then have hd: "get_health_card raw \<noteq> [] \<and> list_all isdecimal_char (get_health_card raw)"
      using luhn_check_True_decimal [of "get_health_card raw"] by auto
    then have hr: "luhn_reference (map dval (get_health_card raw))"
      using luhn_check_decimal [of "get_health_card raw"] h by simp
    \<comment> \<open>rule 2\<close>
    have v: "length (get_version_code raw) = 2 \<and> isalpha (get_version_code raw)
               \<and> isupper (get_version_code raw)"
      using version_code_cases [of raw] parts(2) by simp
    \<comment> \<open>rule 3\<close>
    have d0: "snd (parse_date_flex (get_dob_str raw) ''Date of birth'' []) = []"
      and d1: "rule_date_of_birth (dob_parsed raw) today [] = []"
      using parts(3) by (simp_all add: date_of_birth_errors_def)
    from parse_date_flex_no_error [OF d0] obtain d where
      d: "fst (parse_date_flex (get_dob_str raw) ''Date of birth'' []) = Some d" by blast
    then have dp: "dob_parsed raw = Some d" by (simp add: dob_parsed_def)
    have dv: "valid_date d" using parse_date_flex_Some(1) [OF d] .
    have dt: "try_patterns (get_dob_str raw) patterns = Some d"
      using parse_date_flex_Some(3) [OF d] by (simp add: get_dob_str_def strip_idem)
    note dr = rule_date_of_birth_Nil [OF d1 [unfolded dp]]
    \<comment> \<open>rule 4\<close>
    obtain m where m: "rule_service_date (service_parsed raw) (dob_parsed raw) today [] = Inr m"
      and s0m: "snd (parse_date_flex (get_service_str raw) ''Service date'' []) @ m = []"
      using sd parts(4) by (auto simp: service_date_errors_def split: sum.splits)
    then have s0: "snd (parse_date_flex (get_service_str raw) ''Service date'' []) = []"
      and mN: "m = []" by simp_all
    from parse_date_flex_no_error [OF s0] obtain s where
      s: "fst (parse_date_flex (get_service_str raw) ''Service date'' []) = Some s" by blast
    then have sp: "service_parsed raw = Some s" by (simp add: service_parsed_def)
    have sv: "valid_date s" using parse_date_flex_Some(1) [OF s] .
    have st: "try_patterns (get_service_str raw) patterns = Some s"
      using parse_date_flex_Some(3) [OF s] by (simp add: get_service_str_def strip_idem)
    note sr = rule_service_date_Nil [OF m [unfolded sp dp mN]]
    \<comment> \<open>identifier\<close>
    have p: "get_patient_id raw \<noteq> []"
      using parts(5) by (auto simp: patient_id_errors_def rule_patient_id_def split: if_splits)
    have shapes: "iso_shape (isoformat d)" "iso_shape (isoformat s)"
      using isoformat_shape dv sv by simp_all
    have dates: "\<exists>d s. dob_parsed raw = Some d \<and> service_parsed raw = Some s \<and>
                 try_patterns (get_dob_str raw) patterns = Some d \<and>
                 try_patterns (get_service_str raw) patterns = Some s \<and>
                 DateOfBirth r = ustr (isoformat d) \<and> ServiceDate r = ustr (isoformat s) \<and>
                 iso_shape (isoformat d) \<and> iso_shape (isoformat s) \<and>
                 \<not> date_less today d \<and> \<not> date_less today s \<and> \<not> date_less s d \<and>
                 0 \<le> age_in_years d today \<and> age_in_years d today < 150 \<and>
                 (\<exists>six_months_ago. date_sub_days today 183 = Inr six_months_ago
                                    \<and> \<not> date_less s six_months_ago)"
      using dp sp dt st dr sr shapes
      by (intro exI [of _ d] exI [of _ s]) (simp add: r_eq)
    show ?thesis
      using h hd hr v p dates by (simp add: r_eq)
  qed
  have "(ok \<longleftrightarrow> rec \<noteq> None)" using rec by simp
  with run ok errs inv show ?thesis by auto
qed

text \<open>
  C6. The claim: every accepted record carries a version code of two uppercase letters
  (with the other rules). The code accepts the record whose version code is the letter
  A followed by the ideograph U+4E2D, with every other field valid: the ideograph is a
  letter, so \<open>str.isalpha\<close> holds, and it has no case, so \<open>str.isupper\<close>, which asks for
  no lowercase character and at least one uppercase one, holds too. The normalized
  record carries this version code, whose second character is not an uppercase letter.
\<close>

theorem accepted_version_code_not_uppercase:
  "validate_record record_ideograph today_2024 =
     Inr (True, [],
          Some \<lparr>PatientID = ustr ''P005'', HealthCardNumber = ustr ''1234567897'',
                VersionCode = [of_char (CHR ''A''), 20013],
                DateOfBirth = ustr ''1990-05-15'', ServiceDate = ustr ''2024-06-15''\<rparr>) \<and>
   isalpha_char 20013 \<and> \<not> isupper_char 20013 \<and> \<not> islower_char 20013"
  by code_simp

section \<open>parse\_date\_flex\<close>






text \<open>Which pattern parses each example.\<close>

lemma example_patterns:
  "strptime (ustr ''2024-01-31'') ''%Y-%m-%d'' = Some \<lparr>year = 2024, month = 1, day = 31\<rparr>"
  "strptime (ustr ''2024/01/31'') ''%Y-%m-%d'' = None"
  "strptime (ustr ''2024/01/31'') ''%Y/%m/%d'' = Some \<lparr>year = 2024, month = 1, day = 31\<rparr>"
  "strptime (ustr ''31-01-2024'') ''%Y-%m-%d'' = None"
  "strptime (ustr ''31-01-2024'') ''%Y/%m/%d'' = None"
  "strptime (ustr ''31-01-2024'') ''%d-%m-%Y'' = Some \<lparr>year = 2024, month = 1, day = 31\<rparr>"
  "strptime (ustr ''31/01/2024'') ''%d-%m-%Y'' = None"
  "strptime (ustr ''31/01/2024'') ''%d/%m/%Y'' = Some \<lparr>year = 2024, month = 1, day = 31\<rparr>"
  "strptime (ustr ''20240131'') ''%d/%m/%Y'' = None"
  "strptime (ustr ''20240131'') ''%Y%m%d'' = Some \<lparr>year = 2024, month = 1, day = 31\<rparr>"
  by code_simp+

section \<open>The validation loop\<close>








end
